theory Spec2Isabelle
  imports Complex_Main "HOL-Library.AList"
begin

section \<open>Data model\<close>

text \<open>
  Instants (\<open>time.Time\<close>) and durations (\<open>time.Duration\<close>) are counted in nanoseconds, as
  unbounded integers. Go keeps a duration in 64 bits and \<open>Sub\<close> saturates at the ends of that
  range; the only use made of a duration here is the comparison with \<open>cooldown\<close>, which lies
  inside the range, so the comparison has the same outcome on the saturated value.
\<close>

type_synonym time = int

text \<open>
  A \<open>float64\<close>: a finite value, an infinity or NaN. Go compares with IEEE 754 semantics:
  every comparison with NaN is false.
\<close>

datatype float64 = Finite real | PosInf | NegInf | NaN

fun le64 :: "float64 \<Rightarrow> float64 \<Rightarrow> bool" where
  "le64 NaN _ = False"
| "le64 _ NaN = False"
| "le64 NegInf _ = True"
| "le64 _ PosInf = True"
| "le64 (Finite a) (Finite b) = (a \<le> b)"
| "le64 PosInf _ = False"
| "le64 _ NegInf = False"

definition ge64 :: "float64 \<Rightarrow> float64 \<Rightarrow> bool" where
  "ge64 a b = le64 b a"

datatype error =
    Err string
  | UnsupportedValueError
  | SendOnClosedChannel
  | CloseOfClosedChannel
  | CloseOfNilChannel
  | UnmarshalTypeError

text \<open>\<open>models.Alert\<close> (internal/models/models.go).\<close>

record Alert =
  ID :: string
  UserID :: string
  Symbol :: string
  UpperThreshold :: "float64 option"
  LowerThreshold :: "float64 option"
  CreatedAt :: time
  UpdatedAt :: time

text \<open>\<open>PriceUpdate\<close> (the price processor's main.go).\<close>

record PriceUpdate =
  Exchange :: string
  Symbol :: string
  Price :: float64
  Timestamp :: string

text \<open>\<open>handlers.AlertMessage\<close> (handlers/sse.go).\<close>

record AlertMessage =
  UserID :: string
  Symbol :: string
  Threshold :: float64
  Triggered :: string
  Timestamp :: string

section \<open>JSON encoding of an alert message\<close>

datatype json =
    JString string
  | JNumber real
  | JObject "(string \<times> json) list"

text \<open>
  Go strings are byte sequences, and \<open>encoding/json\<close> writes a string rune by rune
  with \<open>utf8.DecodeRuneInString\<close>. \<open>DecodeRuneInString s\<close> is the width in bytes of the
  rune at the head of \<open>s\<close>, and 0 where Go answers \<open>(RuneError, 1)\<close>: the head is not the
  start of a well-formed encoding. \<open>first\<close> is the table of that name: for a leading byte,
  the width and the range accepted for the second byte.
\<close>

definition byte :: "char \<Rightarrow> nat" where
  "byte c = of_char c"

definition first :: "char \<Rightarrow> (nat \<times> nat \<times> nat) option" where
  "first s0 =
     (let b = byte s0 in
      if 194 \<le> b \<and> b \<le> 223 then Some (2, 128, 191)
      else if b = 224 then Some (3, 160, 191)
      else if 225 \<le> b \<and> b \<le> 236 then Some (3, 128, 191)
      else if b = 237 then Some (3, 128, 159)
      else if 238 \<le> b \<and> b \<le> 239 then Some (3, 128, 191)
      else if b = 240 then Some (4, 144, 191)
      else if 241 \<le> b \<and> b \<le> 243 then Some (4, 128, 191)
      else if b = 244 then Some (4, 128, 143)
      else None)"

definition continuation :: "string \<Rightarrow> nat \<Rightarrow> nat \<Rightarrow> nat \<Rightarrow> bool" where
  "continuation s i lo hi = (i < length s \<and> lo \<le> byte (s ! i) \<and> byte (s ! i) \<le> hi)"

definition DecodeRuneInString :: "string \<Rightarrow> nat" where
  "DecodeRuneInString s =
     (case s of
        [] \<Rightarrow> 0
      | s0 # rest \<Rightarrow>
          if byte s0 < 128 then 1
          else (case first s0 of
                  None \<Rightarrow> 0
                | Some (sz, lo, hi) \<Rightarrow>
                    if length s < sz then 0
                    else if \<not> continuation s 1 lo hi then 0
                    else if sz \<le> 2 then 2
                    else if \<not> continuation s 2 128 191 then 0
                    else if sz \<le> 3 then 3
                    else if \<not> continuation s 3 128 191 then 0
                    else 4))"

text \<open>
  The string denoted by what \<open>encoding/json\<close> writes for a Go string: every byte that does
  not start a well-formed rune is replaced by U+FFFD (the bytes EF BF BD), well-formed runes
  are kept. The first argument counts the bytes of the rune in hand still to be copied.
\<close>

fun coerceFrom :: "nat \<Rightarrow> string \<Rightarrow> string" where
  "coerceFrom k [] = []"
| "coerceFrom (Suc k) (b # bs) = b # coerceFrom k bs"
| "coerceFrom 0 (b # bs) =
     (case DecodeRuneInString (b # bs) of
        0 \<Rightarrow> [CHR 0xEF, CHR 0xBF, CHR 0xBD] @ coerceFrom 0 bs
      | Suc n \<Rightarrow> b # coerceFrom n bs)"

definition coerceUTF8 :: "string \<Rightarrow> string" where
  "coerceUTF8 s = coerceFrom 0 s"



text \<open>
  \<open>json.Marshal\<close> on an \<open>AlertMessage\<close>: the struct tags of the five fields name the keys
  and none of them says \<open>omitempty\<close>, so every field is written, in declaration order.
  Strings are coerced to valid UTF-8. A \<open>float64\<close> that is an infinity or NaN makes
  \<open>Marshal\<close> return an \<open>UnsupportedValueError\<close>.
\<close>

text \<open>
  JSON values, as far as an alert message needs them: a \<open>JString\<close> holds the string that
  the JSON text denotes, a \<open>JNumber\<close> the number. The text itself (escapes, the digits of a
  number) is not modelled: \<open>encoding/json\<close> writes a finite \<open>float64\<close> with the shortest
  digits that read back as the same \<open>float64\<close>, and the escapes it writes for the runes of
  a string denote those runes.
\<close>

definition Marshal :: "AlertMessage \<Rightarrow> error + json" where
  "Marshal alert =
     (case Threshold alert of
        Finite x \<Rightarrow>
          Inr (JObject
            [(''user_id'', JString (coerceUTF8 (AlertMessage.UserID alert))),
             (''symbol'', JString (coerceUTF8 (AlertMessage.Symbol alert))),
             (''threshold'', JNumber x),
             (''triggered'', JString (coerceUTF8 (Triggered alert))),
             (''timestamp'', JString (coerceUTF8 (AlertMessage.Timestamp alert)))])
      | _ \<Rightarrow> Inl UnsupportedValueError)"







section \<open>Output of the processes\<close>

datatype level = Info | Warn | Error

datatype zfield =
    ZString string string
  | ZInt string nat
  | ZError error

text \<open>
  What a process writes, one constructor for each kind of line:
  \<open>Log\<close> is a call of \<open>logger.Log.Info/Warn/Error\<close> with its message and fields, the others
  are the \<open>log.Println\<close>, \<open>fmt.Printf\<close> and \<open>fmt.Println\<close> calls of the price processor.
\<close>

datatype entry =
    Log level string "zfield list"
  | FailedToFetchAlerts error
  | AlertSuppressed string
  | TriggeringSSEAlert AlertMessage
  | NotificationToBeSent

section \<open>The price processor\<close>

text \<open>
  The environment of the price processor: the clock (\<open>now e n\<close> is what the \<open>n\<close>-th call of
  \<open>time.Now()\<close> returns), the formatting of an instant as RFC 3339, and
  \<open>cache.PublishMessage\<close> (internal/cache/pubsub.go), which hands the channel and the
  message to \<open>RedisClient.Publish\<close> and returns its error. The Redis client is taken as a
  parameter: a function of the channel, the payload and the state \<open>'r\<close> of the transport
  that returns an error or none, and the new state of the transport.
\<close>

record 'r env =
  now :: "nat \<Rightarrow> time"
  format :: "time \<Rightarrow> string"
  PublishMessage :: "string \<Rightarrow> json \<Rightarrow> 'r \<Rightarrow> error option \<times> 'r"

text \<open>
  The state of the price processor: the global map \<open>lastAlertTime\<close>, the number of clock
  readings taken so far, the lines written so far and the transport.
\<close>

record 'r world =
  lastAlertTime :: "string \<rightharpoonup> time"
  clock :: nat
  out :: "entry list"
  redis :: 'r

definition cooldown :: time where
  "cooldown = 30 * 1000000000"

definition alertsChannel :: string where
  "alertsChannel = ''price_alerts''"

definition time_Now :: "'r env \<Rightarrow> 'r world \<Rightarrow> time \<times> 'r world" where
  "time_Now e w = (now e (clock w), w\<lparr>clock := Suc (clock w)\<rparr>)"

definition println :: "entry \<Rightarrow> 'r world \<Rightarrow> 'r world" where
  "println l w = w\<lparr>out := out w @ [l]\<rparr>"

text \<open>
  \<open>handlers.BroadcastAlert\<close>: the Go function has no result, so the model returns the unit
  value beside the new state.
\<close>

definition BroadcastAlert :: "'r env \<Rightarrow> AlertMessage \<Rightarrow> 'r world \<Rightarrow> unit \<times> 'r world" where
  "BroadcastAlert e alert w0 =
     (let w1 = println (Log Info ''Publishing alert to Redis''
                 [ZString ''symbol'' (AlertMessage.Symbol alert),
                  ZString ''user_id'' (AlertMessage.UserID alert)]) w0
      in case Marshal alert of
           Inl err \<Rightarrow> ((), println (Log Error ''Failed to marshal alert'' [ZError err]) w1)
         | Inr alertJSON \<Rightarrow>
             (case PublishMessage e alertsChannel alertJSON (redis w1) of
                (Some err, r) \<Rightarrow>
                  ((), println (Log Error ''Failed to publish alert to Redis'' [ZError err])
                         (w1\<lparr>redis := r\<rparr>))
              | (None, r) \<Rightarrow>
                  ((), println (Log Info ''Alert published to Redis successfully''
                               [ZString ''symbol'' (AlertMessage.Symbol alert)])
                         (w1\<lparr>redis := r\<rparr>))))"

definition sendSSEAlert ::
  "'r env \<Rightarrow> string \<Rightarrow> string \<Rightarrow> float64 \<Rightarrow> string \<Rightarrow> 'r world \<Rightarrow> 'r world" where
  "sendSSEAlert e userID symbol threshold triggered w0 =
     (let (t, w1) = time_Now e w0;
          alert = \<lparr>UserID = userID, Symbol = symbol, Threshold = threshold,
                   Triggered = triggered, Timestamp = format e t\<rparr>;
          w2 = println (TriggeringSSEAlert alert) w1
      in snd (BroadcastAlert e alert w2))"

definition alertKey :: "Alert \<Rightarrow> string" where
  "alertKey alert = Alert.UserID alert @ ''_'' @ Alert.Symbol alert"

text \<open>
  The part of the loop body after the cooldown check: the two threshold tests, then the
  update of \<open>lastAlertTime\<close> when \<open>triggered\<close> is set.
\<close>

definition checkThresholds :: "'r env \<Rightarrow> PriceUpdate \<Rightarrow> Alert \<Rightarrow> 'r world \<Rightarrow> 'r world" where
  "checkThresholds e priceUpdate alert w0 =
     (let (triggered1, w1) =
            (case LowerThreshold alert of
               Some lower \<Rightarrow>
                 if le64 (Price priceUpdate) lower
                 then (True, sendSSEAlert e (Alert.UserID alert) (PriceUpdate.Symbol priceUpdate)
                               lower ''below'' w0)
                 else (False, w0)
             | None \<Rightarrow> (False, w0));
          (triggered2, w2) =
            (case UpperThreshold alert of
               Some upper \<Rightarrow>
                 if ge64 (Price priceUpdate) upper
                 then (True, sendSSEAlert e (Alert.UserID alert) (PriceUpdate.Symbol priceUpdate)
                               upper ''above'' w1)
                 else (triggered1, w1)
             | None \<Rightarrow> (triggered1, w1))
      in if triggered2
         then (let (t, w3) = time_Now e w2
               in println NotificationToBeSent
                    (w3\<lparr>lastAlertTime := (lastAlertTime w3)(alertKey alert \<mapsto> t)\<rparr>))
         else w2)"

text \<open>
  One iteration of the loop of \<open>processPriceUpdate\<close>: the key, the cooldown test with its
  \<open>continue\<close>, then the rest of the body. \<open>time.Since(lastTime)\<close> reads the clock, and only
  when the map has an entry for the key.
\<close>

definition processAlert :: "'r env \<Rightarrow> PriceUpdate \<Rightarrow> Alert \<Rightarrow> 'r world \<Rightarrow> 'r world" where
  "processAlert e priceUpdate alert w0 =
     (case lastAlertTime w0 (alertKey alert) of
        Some lastTime \<Rightarrow>
          (let (t, w1) = time_Now e w0
           in if t - lastTime < cooldown
              then println (AlertSuppressed (alertKey alert)) w1
              else checkThresholds e priceUpdate alert w1)
      | None \<Rightarrow> checkThresholds e priceUpdate alert w0)"

text \<open>
  \<open>processPriceUpdate\<close>; \<open>fetched\<close> is what \<open>database.GetAlertsBySymbol\<close> returned for the
  symbol of the price update.
\<close>

definition processPriceUpdate ::
  "'r env \<Rightarrow> error + Alert list \<Rightarrow> PriceUpdate \<Rightarrow> 'r world \<Rightarrow> 'r world" where
  "processPriceUpdate e fetched priceUpdate w =
     (case fetched of
        Inl err \<Rightarrow> println (FailedToFetchAlerts err) w
      | Inr alerts \<Rightarrow> foldl (\<lambda>w' alert. processAlert e priceUpdate alert w') w alerts)"

text \<open>
  The lines a step has added, and the alert messages sent among them: the messages handed
  to \<open>sendSSEAlert\<close>, each printed by it before the publish is tried.
\<close>

definition added :: "'r world \<Rightarrow> 'r world \<Rightarrow> entry list" where
  "added w w' = drop (length (out w)) (out w')"

fun sent :: "entry list \<Rightarrow> AlertMessage list" where
  "sent [] = []"
| "sent (TriggeringSSEAlert m # ls) = m # sent ls"
| "sent (_ # ls) = sent ls"

text \<open>
  The cooldown test of the loop body, read on the state in which an alert is evaluated:
  the map has an entry for the key and the time since it is below \<open>cooldown\<close>.
\<close>

definition cooldownActive :: "'r env \<Rightarrow> Alert \<Rightarrow> 'r world \<Rightarrow> bool" where
  "cooldownActive e alert w =
     (case lastAlertTime w (alertKey alert) of
        Some lastTime \<Rightarrow> now e (clock w) - lastTime < cooldown
      | None \<Rightarrow> False)"

text \<open>The key of an alert message, built as \<open>alertKey\<close> builds the key of an alert.\<close>

definition messageKey :: "AlertMessage \<Rightarrow> string" where
  "messageKey m = AlertMessage.UserID m @ ''_'' @ AlertMessage.Symbol m"

text \<open>
  The main loop of the price processor from some point on: the rest of the alerts of the
  price update in hand, then further price updates, each with what the database returned
  for it.
\<close>

fun processPriceUpdates ::
  "'r env \<Rightarrow> ((error + Alert list) \<times> PriceUpdate) list \<Rightarrow> 'r world \<Rightarrow> 'r world" where
  "processPriceUpdates e [] w = w"
| "processPriceUpdates e ((fetched, priceUpdate) # rest) w =
     processPriceUpdates e rest (processPriceUpdate e fetched priceUpdate w)"

text \<open>
  What \<open>GetAlertsBySymbol\<close> can return for a price update: an error, or alerts whose symbol
  is the symbol asked for (the query selects on \<open>symbol = $1\<close>).
\<close>

fun fetchedFor :: "(error + Alert list) \<times> PriceUpdate \<Rightarrow> bool" where
  "fetchedFor (Inl err, priceUpdate) = True"
| "fetchedFor (Inr alerts, priceUpdate) =
     list_all (\<lambda>alert. Alert.Symbol alert = PriceUpdate.Symbol priceUpdate) alerts"

fun is_log :: "entry \<Rightarrow> bool" where
  "is_log (Log lv msg fs) = True"
| "is_log _ = False"

section \<open>The streaming server\<close>

text \<open>
  A buffered channel of alert messages: the queued messages, the capacity and whether
  the channel has been closed.
\<close>

record chan =
  buf :: "AlertMessage list"
  cap :: nat
  closed :: bool

text \<open>
  The state of the streaming server. Channels are references: a channel is an address
  in \<open>heap\<close>, and \<open>next_chan\<close> is the next address \<open>make\<close> hands out. \<open>clients\<close> is the global
  map from channels to booleans, as an association list on addresses; \<open>range\<close> visits the
  keys in an order Go leaves open, here the order of the list. \<open>written\<close> holds, for the
  handler that owns a channel, the events it has written to its response.
\<close>

record sse =
  clients :: "(nat \<times> bool) list"
  heap :: "nat \<rightharpoonup> chan"
  next_chan :: nat
  logs :: "entry list"
  written :: "nat \<Rightarrow> json list"

definition logLine :: "entry \<Rightarrow> sse \<Rightarrow> sse" where
  "logLine l st = st\<lparr>logs := logs st @ [l]\<rparr>"

definition make_chan :: "nat \<Rightarrow> sse \<Rightarrow> nat \<times> sse" where
  "make_chan n st =
     (next_chan st,
      st\<lparr>heap := (heap st)(next_chan st \<mapsto> \<lparr>buf = [], cap = n, closed = False\<rparr>),
         next_chan := Suc (next_chan st)\<rparr>)"

text \<open>\<open>close(c)\<close> panics on a nil channel and on a closed one.\<close>

definition close_chan :: "nat \<Rightarrow> sse \<Rightarrow> error + sse" where
  "close_chan c st =
     (case heap st c of
        None \<Rightarrow> Inl CloseOfNilChannel
      | Some ch \<Rightarrow>
          if closed ch then Inl CloseOfClosedChannel
          else Inr (st\<lparr>heap := (heap st)(c \<mapsto> ch\<lparr>closed := True\<rparr>)\<rparr>))"

text \<open>
  \<open>select { case c <- m: ... default: ... }\<close>: the send is taken when the buffer has room,
  the default branch otherwise (also for a nil channel, on which a send never proceeds);
  a send on a closed channel panics. The boolean tells whether the send was taken.
\<close>

definition try_send :: "nat \<Rightarrow> AlertMessage \<Rightarrow> sse \<Rightarrow> error + (bool \<times> sse)" where
  "try_send c m st =
     (case heap st c of
        None \<Rightarrow> Inr (False, st)
      | Some ch \<Rightarrow>
          if closed ch then Inl SendOnClosedChannel
          else if length (buf ch) < cap ch
          then Inr (True, st\<lparr>heap := (heap st)(c \<mapsto> ch\<lparr>buf := buf ch @ [m]\<rparr>)\<rparr>)
          else Inr (False, st))"

text \<open>
  \<open>StreamAlertsHandler\<close>, the registration of a new client (after the response has been
  found to support flushing): the channel of capacity 10, its entry in \<open>clients\<close> and the
  logged count. The steps between \<open>mu.Lock()\<close> and \<open>mu.Unlock()\<close> are one step of the
  model, here and in the other functions that take the lock.
\<close>

definition connect :: "sse \<Rightarrow> nat \<times> sse" where
  "connect st0 =
     (let (clientChan, st1) = make_chan 10 st0;
          st2 = st1\<lparr>clients := AList.update clientChan True (clients st1)\<rparr>;
          clientCount = length (clients st2)
      in (clientChan,
          logLine (Log Info ''New SSE client connected'' [ZInt ''total_clients'' clientCount])
            st2))"

text \<open>
  \<open>StreamAlertsHandler\<close>, the deferred function: the entry is deleted, the count is taken,
  the channel is closed and the count is logged. A panic of \<open>close\<close> ends the trace.
\<close>

definition disconnect :: "nat \<Rightarrow> sse \<Rightarrow> error + sse" where
  "disconnect clientChan st0 =
     (let st1 = st0\<lparr>clients := AList.delete clientChan (clients st0)\<rparr>;
          clientCount = length (clients st1)
      in case close_chan clientChan st1 of
           Inl err \<Rightarrow> Inl err
         | Inr st2 \<Rightarrow>
             Inr (logLine (Log Info ''SSE client disconnected''
                    [ZInt ''total_clients'' clientCount]) st2))"

text \<open>The loop of \<open>broadcastToClients\<close> over the keys of \<open>clients\<close>.\<close>

fun broadcastLoop :: "AlertMessage \<Rightarrow> nat list \<Rightarrow> sse \<Rightarrow> error + sse" where
  "broadcastLoop alert [] st = Inr st"
| "broadcastLoop alert (clientChan # rest) st =
     (case try_send clientChan alert st of
        Inl err \<Rightarrow> Inl err
      | Inr (True, st') \<Rightarrow> broadcastLoop alert rest st'
      | Inr (False, st') \<Rightarrow>
          broadcastLoop alert rest
            (logLine (Log Warn ''Alert dropped due to slow client'' []) st'))"

definition broadcastToClients :: "AlertMessage \<Rightarrow> sse \<Rightarrow> error + sse" where
  "broadcastToClients alert st0 =
     (let st1 = logLine (Log Info ''Broadcasting alert to clients''
                  [ZInt ''client_count'' (length (clients st0)),
                   ZString ''symbol'' (AlertMessage.Symbol alert)]) st0
      in if length (clients st1) = 0
         then Inr (logLine (Log Warn ''No SSE clients available! Skipping alert broadcast.'' [])
                     st1)
         else broadcastLoop alert (map fst (clients st1)) st1)"


text \<open>
  The heartbeat goroutine of a connection. \<open>AlertMessage{Timestamp: ...}\<close> leaves the other
  fields at their zero values. The goroutine sees two events, the ticker firing (with the
  formatted time of that moment) and the end of the request's context, and it is running
  or has returned.
\<close>

definition heartbeatMessage :: "string \<Rightarrow> AlertMessage" where
  "heartbeatMessage ts =
     \<lparr>UserID = [], Symbol = [], Threshold = Finite 0, Triggered = [], Timestamp = ts\<rparr>"

datatype goroutine = Running | Returned

datatype signal = TickerFired string | ContextDone

fun heartbeat :: "nat \<Rightarrow> signal \<Rightarrow> goroutine \<times> sse \<Rightarrow> error + (goroutine \<times> sse)" where
  "heartbeat clientChan sig (Returned, st) = Inr (Returned, st)"
| "heartbeat clientChan ContextDone (Running, st) = Inr (Returned, st)"
| "heartbeat clientChan (TickerFired ts) (Running, st) =
     (case try_send clientChan (heartbeatMessage ts) st of
        Inl err \<Rightarrow> Inl err
      | Inr (True, st') \<Rightarrow> Inr (Running, st')
      | Inr (False, st') \<Rightarrow> Inr (Returned, st'))"

text \<open>
  One turn of the loop \<open>for alert := range clientChan\<close> of the handler: the oldest message
  is taken from the buffer and written to the response as one event, or the failure of
  \<open>Marshal\<close> is logged. \<open>None\<close>: nothing to receive.
\<close>

definition streamStep :: "nat \<Rightarrow> sse \<Rightarrow> sse option" where
  "streamStep clientChan st =
     (case heap st clientChan of
        None \<Rightarrow> None
      | Some ch \<Rightarrow>
          (case buf ch of
             [] \<Rightarrow> None
           | alert # rest \<Rightarrow>
               (let st1 = st\<lparr>heap := (heap st)(clientChan \<mapsto> ch\<lparr>buf := rest\<rparr>)\<rparr>
                in case Marshal alert of
                     Inl err \<Rightarrow>
                       Some (logLine (Log Error ''Failed to marshal alert data'' [ZError err])
                               st1)
                   | Inr alertData \<Rightarrow>
                       Some (st1\<lparr>written :=
                               (written st1)(clientChan := written st1 clientChan @ [alertData])\<rparr>))))"

text \<open>The keys of a JSON object.\<close>

fun keys :: "json \<Rightarrow> string list" where
  "keys (JObject members) = map fst members"
| "keys _ = []"

text \<open>Sequences of connections and disconnections, run from a state of the server.\<close>

datatype op = Connect | Disconnect nat

fun run :: "op list \<Rightarrow> sse \<Rightarrow> error + sse" where
  "run [] st = Inr st"
| "run (Connect # ops) st = run ops (snd (connect st))"
| "run (Disconnect clientChan # ops) st =
     (case disconnect clientChan st of
        Inl err \<Rightarrow> Inl err
      | Inr st' \<Rightarrow> run ops st')"

text \<open>
  The sequences a set of handlers can produce: a handler disconnects the channel it has
  connected, once. \<open>n\<close> is the address the next connection gets and \<open>live\<close> the channels
  connected and not yet disconnected.
\<close>

fun handlerOps :: "nat \<Rightarrow> nat list \<Rightarrow> op list \<Rightarrow> bool" where
  "handlerOps n live [] = True"
| "handlerOps n live (Connect # ops) = handlerOps (Suc n) (n # live) ops"
| "handlerOps n live (Disconnect clientChan # ops) =
     (clientChan \<in> set live \<and> handlerOps n (removeAll clientChan live) ops)"

fun isConnect :: "op \<Rightarrow> bool" where
  "isConnect Connect = True"
| "isConnect (Disconnect clientChan) = False"

text \<open>The server before any client: the empty map made at package initialisation.\<close>

definition initial :: sse where
  "initial = \<lparr>clients = [], heap = Map.empty, next_chan = 0, logs = [], written = (\<lambda>c. [])\<rparr>"

text \<open>
  The registered channels are distinct, allocated and open; addresses from \<open>next_chan\<close> on
  are free.
\<close>

definition registryOk :: "sse \<Rightarrow> bool" where
  "registryOk st =
     (distinct (map fst (clients st)) \<and>
      list_all (\<lambda>c. c < next_chan st \<and>
                  (case heap st c of Some ch \<Rightarrow> \<not> closed ch | None \<Rightarrow> False))
        (map fst (clients st)))"

text \<open>What a broadcast does to one registered channel, and the drops it logs.\<close>

definition deliver :: "AlertMessage \<Rightarrow> chan \<Rightarrow> chan" where
  "deliver alert ch =
     (if length (buf ch) < cap ch then ch\<lparr>buf := buf ch @ [alert]\<rparr> else ch)"

definition isFull :: "sse \<Rightarrow> nat \<Rightarrow> bool" where
  "isFull st c = (case heap st c of Some ch \<Rightarrow> \<not> length (buf ch) < cap ch | None \<Rightarrow> True)"

definition drops :: "entry list \<Rightarrow> nat" where
  "drops ls = length (filter (\<lambda>l. l = Log Warn ''Alert dropped due to slow client'' []) ls)"

section \<open>Auxiliary definitions and examples\<close>

text \<open>
  The line the loop body prints when it skips an alert.
\<close>

fun is_suppressed :: "entry \<Rightarrow> bool" where
  "is_suppressed (AlertSuppressed k) = True"
| "is_suppressed _ = False"

text \<open>
  The two threshold tests of the loop body.
\<close>

definition lowerCrossed :: "PriceUpdate \<Rightarrow> Alert \<Rightarrow> bool" where
  "lowerCrossed pu a = (case LowerThreshold a of Some l \<Rightarrow> le64 (Price pu) l | None \<Rightarrow> False)"

definition upperCrossed :: "PriceUpdate \<Rightarrow> Alert \<Rightarrow> bool" where
  "upperCrossed pu a = (case UpperThreshold a of Some u \<Rightarrow> ge64 (Price pu) u | None \<Rightarrow> False)"

text \<open>
  The message the loop body sends for a direction when its test holds, stamped with
  the \<open>c\<close>-th reading of the clock.
\<close>

definition belowAt :: "'r env \<Rightarrow> PriceUpdate \<Rightarrow> Alert \<Rightarrow> nat \<Rightarrow> AlertMessage list" where
  "belowAt e pu a c =
     (case LowerThreshold a of
        Some l \<Rightarrow> if le64 (Price pu) l
          then [\<lparr>UserID = Alert.UserID a, Symbol = PriceUpdate.Symbol pu, Threshold = l,
                 Triggered = ''below'', Timestamp = format e (now e c)\<rparr>] else []
      | None \<Rightarrow> [])"

definition aboveAt :: "'r env \<Rightarrow> PriceUpdate \<Rightarrow> Alert \<Rightarrow> nat \<Rightarrow> AlertMessage list" where
  "aboveAt e pu a c =
     (case UpperThreshold a of
        Some u \<Rightarrow> if ge64 (Price pu) u
          then [\<lparr>UserID = Alert.UserID a, Symbol = PriceUpdate.Symbol pu, Threshold = u,
                 Triggered = ''above'', Timestamp = format e (now e c)\<rparr>] else []
      | None \<Rightarrow> [])"

text \<open>
  Lines that are neither a suppression nor the notification line.
\<close>

definition quiet :: "entry list \<Rightarrow> bool" where
  "quiet ls = list_all (\<lambda>l. \<not> is_suppressed l \<and> l \<noteq> NotificationToBeSent) ls"

text \<open>
  The number of times the line after the update of \<open>lastAlertTime\<close> was printed.
\<close>

definition notifications :: "entry list \<Rightarrow> nat" where
  "notifications ls = length (filter (\<lambda>l. l = NotificationToBeSent) ls)"

text \<open>
  Examples: a clock that advances ten seconds with every reading, a transport that
  stores what is published, an alert whose upper threshold lies below its lower one.
\<close>

definition demoEnv :: "(string \<times> json) list env" where
  "demoEnv = \<lparr>now = (\<lambda>n. 10000000000 * int n), format = (\<lambda>t. ''T''),
              PublishMessage = (\<lambda>c p r. (None, r @ [(c, p)]))\<rparr>"

definition demoWorld :: "(string \<times> json) list world" where
  "demoWorld = \<lparr>lastAlertTime = Map.empty, clock = 0, out = [], redis = []\<rparr>"

definition demoAlert :: Alert where
  "demoAlert = \<lparr>ID = ''1'', UserID = ''U1'', Symbol = ''BTC-USD'',
                 UpperThreshold = Some (Finite 80000), LowerThreshold = Some (Finite 90000),
                 CreatedAt = 0, UpdatedAt = 0\<rparr>"

definition demoTick :: "real \<Rightarrow> PriceUpdate" where
  "demoTick p = \<lparr>Exchange = ''X'', Symbol = ''BTC-USD'', Price = Finite p, Timestamp = ''T''\<rparr>"

text \<open>
  A state in which the key of the example alert fired at time 0 and one reading of the
  clock has been taken.
\<close>

definition demoCooling :: "(string \<times> json) list world" where
  "demoCooling = \<lparr>lastAlertTime = [''U1_BTC-USD'' \<mapsto> 0], clock = 1, out = [], redis = []\<rparr>"

text \<open>
  Two alerts of different users and symbols with one key, and a price update for each.
\<close>

definition alertAB :: Alert where
  "alertAB = \<lparr>ID = ''1'', UserID = ''a_b'', Symbol = ''c'',
               UpperThreshold = None, LowerThreshold = Some (Finite 10),
               CreatedAt = 0, UpdatedAt = 0\<rparr>"

definition alertA :: Alert where
  "alertA = \<lparr>ID = ''2'', UserID = ''a'', Symbol = ''b_c'',
               UpperThreshold = Some (Finite 5), LowerThreshold = None,
               CreatedAt = 0, UpdatedAt = 0\<rparr>"

definition tickC :: PriceUpdate where
  "tickC = \<lparr>Exchange = ''X'', Symbol = ''c'', Price = Finite 9, Timestamp = ''T''\<rparr>"

definition tickBC :: PriceUpdate where
  "tickBC = \<lparr>Exchange = ''X'', Symbol = ''b_c'', Price = Finite 7, Timestamp = ''T''\<rparr>"


definition demoMessage :: AlertMessage where
  "demoMessage = \<lparr>UserID = ''U1'', Symbol = ''BTC-USD'', Threshold = Finite 90000,
                   Triggered = ''below'', Timestamp = ''T''\<rparr>"




text \<open>
  Every channel of a list is allocated and open.
\<close>

definition allOpen :: "sse \<Rightarrow> nat list \<Rightarrow> bool" where
  "allOpen st cs = list_all (\<lambda>c. case heap st c of Some ch \<Rightarrow> \<not> closed ch | None \<Rightarrow> False) cs"

text \<open>
  Three connected clients: an empty buffer, a full one and one holding a single message.
\<close>

definition threeSinks :: sse where
  "threeSinks =
     \<lparr>clients = [(0, True), (1, True), (2, True)],
      heap = [0 \<mapsto> \<lparr>buf = [], cap = 10, closed = False\<rparr>,
              1 \<mapsto> \<lparr>buf = replicate 10 (heartbeatMessage ''T''), cap = 10, closed = False\<rparr>,
              2 \<mapsto> \<lparr>buf = [heartbeatMessage ''T''], cap = 10, closed = False\<rparr>],
      next_chan = 3, logs = [], written = (\<lambda>c. [])\<rparr>"

text \<open>
  Three handlers start and two of them end.
\<close>

definition demoOps :: "op list" where
  "demoOps = [Connect, Connect, Disconnect 0, Connect, Disconnect 2]"

text \<open>
  One connected client whose buffer of capacity 10 is full.
\<close>

definition fullSink :: sse where
  "fullSink =
     \<lparr>clients = [(0, True)],
      heap = [0 \<mapsto> \<lparr>buf = replicate 10 (heartbeatMessage ''T''), cap = 10, closed = False\<rparr>],
      next_chan = 1, logs = [], written = (\<lambda>c. [])\<rparr>"

section \<open>The price processor: what one evaluation writes\<close>

lemma sent_append: "sent (xs @ ys) = sent xs @ sent ys"
  by (induction xs rule: sent.induct) simp_all

lemma sent_logs: "list_all is_log ls \<Longrightarrow> sent ls = []"
  by (induction ls rule: sent.induct) simp_all

lemma BroadcastAlert_effect:
  "\<exists>ls. out (snd (BroadcastAlert e m w)) = out w @ ls \<and> list_all is_log ls \<and>
        lastAlertTime (snd (BroadcastAlert e m w)) = lastAlertTime w \<and>
        clock (snd (BroadcastAlert e m w)) = clock w"
  by (auto simp: BroadcastAlert_def println_def Let_def split: sum.splits prod.splits option.splits)

lemma sendSSEAlert_effect:
  "\<exists>ls. out (sendSSEAlert e u s th tr w) =
          out w @ TriggeringSSEAlert \<lparr>UserID = u, Symbol = s, Threshold = th, Triggered = tr,
                    Timestamp = format e (now e (clock w))\<rparr> # ls \<and>
        list_all is_log ls \<and>
        lastAlertTime (sendSSEAlert e u s th tr w) = lastAlertTime w \<and>
        clock (sendSSEAlert e u s th tr w) = Suc (clock w)"
proof -
  let ?m = "\<lparr>UserID = u, Symbol = s, Threshold = th, Triggered = tr,
              Timestamp = format e (now e (clock w))\<rparr>"
  let ?w2 = "println (TriggeringSSEAlert ?m) (w\<lparr>clock := Suc (clock w)\<rparr>)"
  have eq: "sendSSEAlert e u s th tr w = snd (BroadcastAlert e ?m ?w2)"
    by (simp add: sendSSEAlert_def time_Now_def Let_def)
  obtain ls where "out (snd (BroadcastAlert e ?m ?w2)) = out ?w2 @ ls" "list_all is_log ls"
    "lastAlertTime (snd (BroadcastAlert e ?m ?w2)) = lastAlertTime ?w2"
    "clock (snd (BroadcastAlert e ?m ?w2)) = clock ?w2"
    using BroadcastAlert_effect[of e ?m ?w2] by blast
  then show ?thesis unfolding eq by (simp add: println_def)
qed

lemma quiet_logs: "list_all is_log ls \<Longrightarrow> quiet ls"
  unfolding quiet_def by (induction ls) (auto elim: is_log.elims)

lemma quiet_append: "quiet (xs @ ys) = (quiet xs \<and> quiet ys)"
  by (simp add: quiet_def)

lemma lower_step:
  "\<exists>ls w1 tr. (case LowerThreshold a of
               Some lower \<Rightarrow> if le64 (Price pu) lower
                 then (True, sendSSEAlert e (Alert.UserID a) (PriceUpdate.Symbol pu) lower ''below'' w)
                 else (False, w)
             | None \<Rightarrow> (False, w)) = (tr, w1) \<and> tr = lowerCrossed pu a \<and>
     out w1 = out w @ ls \<and> sent ls = belowAt e pu a (clock w) \<and> quiet ls \<and>
     lastAlertTime w1 = lastAlertTime w \<and> clock w1 = clock w + length (belowAt e pu a (clock w))"
proof (cases "lowerCrossed pu a")
  case True
  then obtain l where l: "LowerThreshold a = Some l" "le64 (Price pu) l"
    by (auto simp: lowerCrossed_def split: option.splits)
  obtain ls where "out (sendSSEAlert e (Alert.UserID a) (PriceUpdate.Symbol pu) l ''below'' w) =
      out w @ TriggeringSSEAlert \<lparr>UserID = Alert.UserID a, Symbol = PriceUpdate.Symbol pu, Threshold = l,
         Triggered = ''below'', Timestamp = format e (now e (clock w))\<rparr> # ls"
     "list_all is_log ls"
     "lastAlertTime (sendSSEAlert e (Alert.UserID a) (PriceUpdate.Symbol pu) l ''below'' w) = lastAlertTime w"
     "clock (sendSSEAlert e (Alert.UserID a) (PriceUpdate.Symbol pu) l ''below'' w) = Suc (clock w)"
    using sendSSEAlert_effect by blast
  then show ?thesis using l True quiet_logs[of ls]
    by (auto simp: belowAt_def sent_logs quiet_def)
next
  case False
  then show ?thesis
    by (auto simp: lowerCrossed_def belowAt_def quiet_def split: option.splits)
qed

lemma upper_step:
  "\<exists>ls w2 tr. (case UpperThreshold a of
               Some upper \<Rightarrow> if ge64 (Price pu) upper
                 then (True, sendSSEAlert e (Alert.UserID a) (PriceUpdate.Symbol pu) upper ''above'' w)
                 else (trg, w)
             | None \<Rightarrow> (trg, w)) = (tr, w2) \<and> tr = (trg \<or> upperCrossed pu a) \<and>
     out w2 = out w @ ls \<and> sent ls = aboveAt e pu a (clock w) \<and> quiet ls \<and>
     lastAlertTime w2 = lastAlertTime w \<and> clock w2 = clock w + length (aboveAt e pu a (clock w))"
proof (cases "upperCrossed pu a")
  case True
  then obtain u where u: "UpperThreshold a = Some u" "ge64 (Price pu) u"
    by (auto simp: upperCrossed_def split: option.splits)
  obtain ls where "out (sendSSEAlert e (Alert.UserID a) (PriceUpdate.Symbol pu) u ''above'' w) =
      out w @ TriggeringSSEAlert \<lparr>UserID = Alert.UserID a, Symbol = PriceUpdate.Symbol pu, Threshold = u,
         Triggered = ''above'', Timestamp = format e (now e (clock w))\<rparr> # ls"
     "list_all is_log ls"
     "lastAlertTime (sendSSEAlert e (Alert.UserID a) (PriceUpdate.Symbol pu) u ''above'' w) = lastAlertTime w"
     "clock (sendSSEAlert e (Alert.UserID a) (PriceUpdate.Symbol pu) u ''above'' w) = Suc (clock w)"
    using sendSSEAlert_effect by blast
  then show ?thesis using u True quiet_logs[of ls]
    by (auto simp: aboveAt_def sent_logs quiet_def)
next
  case False
  then show ?thesis
    by (auto simp: upperCrossed_def aboveAt_def quiet_def split: option.splits)
qed

lemma quiet_notifications: "quiet ls \<Longrightarrow> notifications ls = 0"
  by (induction ls) (auto simp: quiet_def notifications_def)

lemma quiet_suppressed: "quiet ls \<Longrightarrow> \<not> list_ex is_suppressed ls"
  by (induction ls) (auto simp: quiet_def)

lemma checkThresholds_effect:
  fixes e :: "'r env" and w :: "'r world" and pu :: PriceUpdate and a :: Alert
  defines "w' \<equiv> checkThresholds e pu a w"
  defines "n \<equiv> length (belowAt e pu a (clock w))"
  defines "m \<equiv> length (aboveAt e pu a (clock w + n))"
  shows "\<exists>ls. out w' = out w @ ls \<and>
     sent ls = belowAt e pu a (clock w) @ aboveAt e pu a (clock w + n) \<and>
     \<not> list_ex is_suppressed ls \<and>
     (if lowerCrossed pu a \<or> upperCrossed pu a
      then lastAlertTime w' = (lastAlertTime w)(alertKey a \<mapsto> now e (clock w + n + m)) \<and>
           clock w' = clock w + n + m + 1 \<and> notifications ls = 1
      else lastAlertTime w' = lastAlertTime w \<and> clock w' = clock w + n + m \<and> notifications ls = 0)"
proof -
  obtain ls1 w1 tr1 where s1: "(case LowerThreshold a of
               Some lower \<Rightarrow> if le64 (Price pu) lower
                 then (True, sendSSEAlert e (Alert.UserID a) (PriceUpdate.Symbol pu) lower ''below'' w)
                 else (False, w)
             | None \<Rightarrow> (False, w)) = (tr1, w1)" "tr1 = lowerCrossed pu a"
     "out w1 = out w @ ls1" "sent ls1 = belowAt e pu a (clock w)" "quiet ls1"
     "lastAlertTime w1 = lastAlertTime w" "clock w1 = clock w + n"
    unfolding n_def using lower_step[where a=a and pu=pu and e=e and w=w] by blast
  obtain ls2 w2 tr2 where s2: "(case UpperThreshold a of
               Some upper \<Rightarrow> if ge64 (Price pu) upper
                 then (True, sendSSEAlert e (Alert.UserID a) (PriceUpdate.Symbol pu) upper ''above'' w1)
                 else (tr1, w1)
             | None \<Rightarrow> (tr1, w1)) = (tr2, w2)" "tr2 = (tr1 \<or> upperCrossed pu a)"
     "out w2 = out w1 @ ls2" "sent ls2 = aboveAt e pu a (clock w1)" "quiet ls2"
     "lastAlertTime w2 = lastAlertTime w1" "clock w2 = clock w1 + length (aboveAt e pu a (clock w1))"
    using upper_step[where a=a and pu=pu and e=e and w=w1 and trg=tr1] by blast
  have w': "w' = (if tr2
         then (let (t, w3) = time_Now e w2
               in println NotificationToBeSent
                    (w3\<lparr>lastAlertTime := (lastAlertTime w3)(alertKey a \<mapsto> t)\<rparr>))
         else w2)"
    unfolding w'_def checkThresholds_def s1(1) using s2(1) by simp
  have q: "quiet (ls1 @ ls2)" using s1 s2 by (simp add: quiet_append)
  show ?thesis
  proof (cases tr2)
    case True
    have "out w' = out w @ (ls1 @ ls2 @ [NotificationToBeSent])"
      using True w' s1 s2 by (simp add: time_Now_def println_def)
    moreover have "sent (ls1 @ ls2 @ [NotificationToBeSent]) = belowAt e pu a (clock w) @ aboveAt e pu a (clock w + n)"
      using s1 s2 by (simp add: sent_append)
    moreover have "\<not> list_ex is_suppressed (ls1 @ ls2 @ [NotificationToBeSent])"
      using quiet_suppressed[OF s1(5)] quiet_suppressed[OF s2(5)] by simp
    moreover have "notifications (ls1 @ ls2 @ [NotificationToBeSent]) = 1"
      using quiet_notifications[OF s1(5)] quiet_notifications[OF s2(5)] by (simp add: notifications_def)
    moreover have "lastAlertTime w' = (lastAlertTime w)(alertKey a \<mapsto> now e (clock w + n + m))"
      "clock w' = clock w + n + m + 1"
      using True w' s1 s2 by (simp_all add: time_Now_def println_def m_def)
    ultimately show ?thesis using True s1(2) s2(2) by auto
  next
    case False
    have "out w' = out w @ (ls1 @ ls2)" using False w' s1 s2 by simp
    moreover have "sent (ls1 @ ls2) = belowAt e pu a (clock w) @ aboveAt e pu a (clock w + n)"
      using s1 s2 by (simp add: sent_append)
    moreover have "\<not> list_ex is_suppressed (ls1 @ ls2)"
      using quiet_suppressed[OF q] .
    moreover have "notifications (ls1 @ ls2) = 0" using quiet_notifications[OF q] .
    moreover have "lastAlertTime w' = lastAlertTime w" "clock w' = clock w + n + m"
      using False w' s1 s2 by (simp_all add: m_def)
    ultimately show ?thesis using False s1(2) s2(2) by auto
  qed
qed

lemma processAlert_cases:
  "processAlert e pu a w =
     (if cooldownActive e a w
      then println (AlertSuppressed (alertKey a)) (w\<lparr>clock := Suc (clock w)\<rparr>)
      else checkThresholds e pu a
             (case lastAlertTime w (alertKey a) of None \<Rightarrow> w | Some lastTime \<Rightarrow> w\<lparr>clock := Suc (clock w)\<rparr>))"
  by (simp add: processAlert_def cooldownActive_def time_Now_def split: option.splits)

lemma belowAt_fields:
  "m \<in> set (belowAt e pu a c) \<Longrightarrow>
     AlertMessage.UserID m = Alert.UserID a \<and> AlertMessage.Symbol m = PriceUpdate.Symbol pu"
  by (auto simp: belowAt_def split: option.splits if_splits)

lemma aboveAt_fields:
  "m \<in> set (aboveAt e pu a c) \<Longrightarrow>
     AlertMessage.UserID m = Alert.UserID a \<and> AlertMessage.Symbol m = PriceUpdate.Symbol pu"
  by (auto simp: aboveAt_def split: option.splits if_splits)

lemma checkThresholds_frame:
  fixes e :: "'r env" and w :: "'r world"
  shows "\<exists>ls. out (checkThresholds e pu a w) = out w @ ls \<and>
     clock w \<le> clock (checkThresholds e pu a w) \<and>
     (\<forall>m \<in> set (sent ls). AlertMessage.UserID m = Alert.UserID a \<and>
         AlertMessage.Symbol m = PriceUpdate.Symbol pu) \<and>
     (\<forall>k. k \<noteq> alertKey a \<longrightarrow> lastAlertTime (checkThresholds e pu a w) k = lastAlertTime w k)"
proof -
  obtain ls where ls: "out (checkThresholds e pu a w) = out w @ ls"
     "sent ls = belowAt e pu a (clock w) @ aboveAt e pu a (clock w + length (belowAt e pu a (clock w)))"
     "(if lowerCrossed pu a \<or> upperCrossed pu a
      then lastAlertTime (checkThresholds e pu a w) = (lastAlertTime w)(alertKey a \<mapsto> now e (clock w + length (belowAt e pu a (clock w)) + length (aboveAt e pu a (clock w + length (belowAt e pu a (clock w)))))) \<and>
           clock (checkThresholds e pu a w) = clock w + length (belowAt e pu a (clock w)) + length (aboveAt e pu a (clock w + length (belowAt e pu a (clock w)))) + 1
      else lastAlertTime (checkThresholds e pu a w) = lastAlertTime w \<and> clock (checkThresholds e pu a w) = clock w + length (belowAt e pu a (clock w)) + length (aboveAt e pu a (clock w + length (belowAt e pu a (clock w)))))"
    using checkThresholds_effect[where e=e and pu=pu and a=a and w=w] by auto
  have "\<forall>m \<in> set (sent ls). AlertMessage.UserID m = Alert.UserID a \<and>
         AlertMessage.Symbol m = PriceUpdate.Symbol pu"
    unfolding ls(2) using belowAt_fields[of _ e pu a] aboveAt_fields[of _ e pu a] by auto
  moreover have "clock w \<le> clock (checkThresholds e pu a w)"
    using ls(3) by (auto split: if_splits)
  moreover have "\<forall>k. k \<noteq> alertKey a \<longrightarrow> lastAlertTime (checkThresholds e pu a w) k = lastAlertTime w k"
    using ls(3) by (auto split: if_splits)
  ultimately show ?thesis using ls(1) by blast
qed

lemma processAlert_frame:
  fixes e :: "'r env" and w :: "'r world"
  shows "\<exists>ls. out (processAlert e pu a w) = out w @ ls \<and>
     clock w \<le> clock (processAlert e pu a w) \<and>
     (lastAlertTime w (alertKey a) \<noteq> None \<longrightarrow> clock w < clock (processAlert e pu a w)) \<and>
     (\<forall>m \<in> set (sent ls). AlertMessage.UserID m = Alert.UserID a \<and>
         AlertMessage.Symbol m = PriceUpdate.Symbol pu) \<and>
     (\<forall>k. k \<noteq> alertKey a \<longrightarrow> lastAlertTime (processAlert e pu a w) k = lastAlertTime w k)"
proof (cases "cooldownActive e a w")
  case True
  then show ?thesis by (simp add: processAlert_cases println_def)
next
  case False
  let ?w1 = "case lastAlertTime w (alertKey a) of None \<Rightarrow> w | Some lastTime \<Rightarrow> w\<lparr>clock := Suc (clock w)\<rparr>"
  have eq: "processAlert e pu a w = checkThresholds e pu a ?w1"
    using False by (simp add: processAlert_cases)
  have w1: "out ?w1 = out w" "lastAlertTime ?w1 = lastAlertTime w" "clock w \<le> clock ?w1"
    "lastAlertTime w (alertKey a) \<noteq> None \<longrightarrow> clock w < clock ?w1"
    by (auto split: option.splits)
  obtain ls where ls: "out (checkThresholds e pu a ?w1) = out ?w1 @ ls"
     "clock ?w1 \<le> clock (checkThresholds e pu a ?w1)"
     "\<forall>m \<in> set (sent ls). AlertMessage.UserID m = Alert.UserID a \<and>
         AlertMessage.Symbol m = PriceUpdate.Symbol pu"
     "\<forall>k. k \<noteq> alertKey a \<longrightarrow> lastAlertTime (checkThresholds e pu a ?w1) k = lastAlertTime ?w1 k"
    using checkThresholds_frame[where e=e and pu=pu and a=a and w="?w1"] by blast
  have "out (processAlert e pu a w) = out w @ ls" unfolding eq using ls(1) w1(1) by simp
  moreover have "clock w \<le> clock (processAlert e pu a w)" unfolding eq using ls(2) w1(3) by linarith
  moreover have "lastAlertTime w (alertKey a) \<noteq> None \<longrightarrow> clock w < clock (processAlert e pu a w)"
    unfolding eq using ls(2) w1(4) by auto
  moreover have "\<forall>k. k \<noteq> alertKey a \<longrightarrow> lastAlertTime (processAlert e pu a w) k = lastAlertTime w k"
    unfolding eq using ls(4) w1(2) by simp
  ultimately show ?thesis using ls(3) by blast
qed

section \<open>The price processor: inside the cooldown window\<close>

lemma alertKey_messageKey:
  "AlertMessage.UserID m = Alert.UserID a \<Longrightarrow> AlertMessage.Symbol m = PriceUpdate.Symbol pu \<Longrightarrow>
   Alert.Symbol a = PriceUpdate.Symbol pu \<Longrightarrow> messageKey m = alertKey a"
  by (simp add: messageKey_def alertKey_def)

lemma processAlert_window:
  fixes e :: "'r env" and w :: "'r world"
  assumes t: "lastAlertTime w k = Some t"
    and win: "\<forall>i. clock w \<le> i \<and> i < N \<longrightarrow> now e i - t < cooldown"
    and N: "clock (processAlert e pu a w) \<le> N"
    and sym: "Alert.Symbol a = PriceUpdate.Symbol pu"
  shows "lastAlertTime (processAlert e pu a w) k = Some t \<and>
         clock w \<le> clock (processAlert e pu a w) \<and>
         (\<exists>ls. out (processAlert e pu a w) = out w @ ls \<and>
               filter (\<lambda>m. messageKey m = k) (sent ls) = [])"
proof -
  obtain ls where ls: "out (processAlert e pu a w) = out w @ ls"
     "clock w \<le> clock (processAlert e pu a w)"
     "lastAlertTime w (alertKey a) \<noteq> None \<longrightarrow> clock w < clock (processAlert e pu a w)"
     "\<forall>m \<in> set (sent ls). AlertMessage.UserID m = Alert.UserID a \<and>
         AlertMessage.Symbol m = PriceUpdate.Symbol pu"
     "\<forall>k. k \<noteq> alertKey a \<longrightarrow> lastAlertTime (processAlert e pu a w) k = lastAlertTime w k"
    using processAlert_frame[where e=e and pu=pu and a=a and w=w] by blast
  show ?thesis
  proof (cases "alertKey a = k")
    case True
    have "clock w < N" using ls(3) t True N by simp
    then have "now e (clock w) - t < cooldown" using win by simp
    then have act: "cooldownActive e a w" using t True by (simp add: cooldownActive_def)
    have eq: "processAlert e pu a w = println (AlertSuppressed (alertKey a)) (w\<lparr>clock := Suc (clock w)\<rparr>)"
      using act by (simp add: processAlert_cases)
    have "out (processAlert e pu a w) = out w @ [AlertSuppressed (alertKey a)]"
      unfolding eq by (simp add: println_def)
    moreover have "filter (\<lambda>m. messageKey m = k) (sent [AlertSuppressed (alertKey a)]) = []" by simp
    moreover have "lastAlertTime (processAlert e pu a w) k = Some t"
      unfolding eq using t by (simp add: println_def)
    ultimately show ?thesis using ls(2) by blast
  next
    case False
    have "messageKey m \<noteq> k" if "m \<in> set (sent ls)" for m
    proof -
      have "AlertMessage.UserID m = Alert.UserID a" "AlertMessage.Symbol m = PriceUpdate.Symbol pu"
        using ls(4) that by simp_all
      then have "messageKey m = alertKey a" using sym by (rule alertKey_messageKey)
      then show ?thesis using False by simp
    qed
    then have "filter (\<lambda>m. messageKey m = k) (sent ls) = []"
      by (simp add: filter_empty_conv)
    moreover have "lastAlertTime (processAlert e pu a w) k = Some t"
      using ls(5) False t by simp
    ultimately show ?thesis using ls(1,2) by blast
  qed
qed

lemma processAlert_clock_mono: "clock w \<le> clock (processAlert e pu a w)"
  using processAlert_frame[where e=e and pu=pu and a=a and w=w] by blast

lemma foldl_clock_mono:
  "clock w \<le> clock (foldl (\<lambda>w' alert. processAlert e pu alert w') w as)"
proof (induction as arbitrary: w)
  case Nil
  show ?case by simp
next
  case (Cons a as)
  have "clock w \<le> clock (processAlert e pu a w)" by (rule processAlert_clock_mono)
  also have "\<dots> \<le> clock (foldl (\<lambda>w' alert. processAlert e pu alert w') (processAlert e pu a w) as)"
    by (rule Cons.IH)
  finally show ?case by simp
qed

lemma alerts_window:
  fixes e :: "'r env" and w :: "'r world"
  assumes "lastAlertTime w k = Some t"
    and "\<forall>i. clock w \<le> i \<and> i < N \<longrightarrow> now e i - t < cooldown"
    and "clock (foldl (\<lambda>w' alert. processAlert e pu alert w') w as) \<le> N"
    and "list_all (\<lambda>alert. Alert.Symbol alert = PriceUpdate.Symbol pu) as"
  shows "lastAlertTime (foldl (\<lambda>w' alert. processAlert e pu alert w') w as) k = Some t \<and>
         (\<exists>ls. out (foldl (\<lambda>w' alert. processAlert e pu alert w') w as) = out w @ ls \<and>
               filter (\<lambda>m. messageKey m = k) (sent ls) = [])"
  using assms
proof (induction as arbitrary: w)
  case Nil
  then show ?case by simp
next
  case (Cons a as)
  let ?w1 = "processAlert e pu a w"
  let ?w2 = "foldl (\<lambda>w' alert. processAlert e pu alert w') ?w1 as"
  have N1: "clock ?w1 \<le> N"
    using foldl_clock_mono[of ?w1 e pu as] Cons.prems(3) by simp
  have sym: "Alert.Symbol a = PriceUpdate.Symbol pu" using Cons.prems(4) by simp
  from processAlert_window[OF Cons.prems(1) Cons.prems(2) N1 sym]
  obtain ls1 where s1: "lastAlertTime ?w1 k = Some t" "clock w \<le> clock ?w1"
    "out ?w1 = out w @ ls1" "filter (\<lambda>m. messageKey m = k) (sent ls1) = []" by blast
  have win1: "\<forall>i. clock ?w1 \<le> i \<and> i < N \<longrightarrow> now e i - t < cooldown"
    using Cons.prems(2) s1(2) by auto
  have "lastAlertTime ?w2 k = Some t \<and>
         (\<exists>ls. out ?w2 = out ?w1 @ ls \<and> filter (\<lambda>m. messageKey m = k) (sent ls) = [])"
    using Cons.IH[OF s1(1) win1] Cons.prems(3,4) by simp
  then obtain ls2 where s2: "lastAlertTime ?w2 k = Some t" "out ?w2 = out ?w1 @ ls2"
    "filter (\<lambda>m. messageKey m = k) (sent ls2) = []" by blast
  have "out ?w2 = out w @ (ls1 @ ls2)" using s1(3) s2(2) by simp
  moreover have "filter (\<lambda>m. messageKey m = k) (sent (ls1 @ ls2)) = []"
    using s1(4) s2(3) by (simp add: sent_append)
  ultimately show ?case using s2(1) by simp
qed

lemma processPriceUpdate_clock_mono: "clock w \<le> clock (processPriceUpdate e f pu w)"
  by (cases f) (simp_all add: processPriceUpdate_def println_def foldl_clock_mono)

lemma processPriceUpdates_clock_mono: "clock w \<le> clock (processPriceUpdates e ticks w)"
proof (induction ticks arbitrary: w)
  case Nil
  show ?case by simp
next
  case (Cons x ticks)
  obtain f pu where x: "x = (f, pu)" by (cases x)
  have "clock w \<le> clock (processPriceUpdate e f pu w)" by (rule processPriceUpdate_clock_mono)
  also have "\<dots> \<le> clock (processPriceUpdates e ticks (processPriceUpdate e f pu w))"
    by (rule Cons.IH)
  finally show ?case by (simp add: x)
qed

lemma processPriceUpdate_window:
  fixes e :: "'r env" and w :: "'r world"
  assumes "lastAlertTime w k = Some t"
    and "\<forall>i. clock w \<le> i \<and> i < N \<longrightarrow> now e i - t < cooldown"
    and "clock (processPriceUpdate e f pu w) \<le> N"
    and "fetchedFor (f, pu)"
  shows "lastAlertTime (processPriceUpdate e f pu w) k = Some t \<and>
         (\<exists>ls. out (processPriceUpdate e f pu w) = out w @ ls \<and>
               filter (\<lambda>m. messageKey m = k) (sent ls) = [])"
proof (cases f)
  case (Inl err)
  then show ?thesis using assms(1) by (simp add: processPriceUpdate_def println_def)
next
  case (Inr as)
  then show ?thesis using alerts_window[OF assms(1,2), of pu as] assms(3,4)
    by (simp add: processPriceUpdate_def)
qed

lemma processPriceUpdates_window:
  fixes e :: "'r env" and w :: "'r world"
  assumes "lastAlertTime w k = Some t"
    and "\<forall>i. clock w \<le> i \<and> i < N \<longrightarrow> now e i - t < cooldown"
    and "clock (processPriceUpdates e ticks w) \<le> N"
    and "list_all fetchedFor ticks"
  shows "lastAlertTime (processPriceUpdates e ticks w) k = Some t \<and>
         (\<exists>ls. out (processPriceUpdates e ticks w) = out w @ ls \<and>
               filter (\<lambda>m. messageKey m = k) (sent ls) = [])"
  using assms
proof (induction ticks arbitrary: w)
  case Nil
  then show ?case by simp
next
  case (Cons x ticks)
  obtain f pu where x: "x = (f, pu)" by (cases x)
  let ?w1 = "processPriceUpdate e f pu w"
  let ?w2 = "processPriceUpdates e ticks ?w1"
  have N1: "clock ?w1 \<le> N"
    using processPriceUpdates_clock_mono[of ?w1 e ticks] Cons.prems(3) by (simp add: x)
  have ff: "fetchedFor (f, pu)" using Cons.prems(4) by (simp add: x)
  from processPriceUpdate_window[OF Cons.prems(1) Cons.prems(2) N1 ff]
  obtain ls1 where s1: "lastAlertTime ?w1 k = Some t"
    "out ?w1 = out w @ ls1" "filter (\<lambda>m. messageKey m = k) (sent ls1) = []" by blast
  have win1: "\<forall>i. clock ?w1 \<le> i \<and> i < N \<longrightarrow> now e i - t < cooldown"
    using Cons.prems(2) processPriceUpdate_clock_mono[of w e f pu] by auto
  have "lastAlertTime ?w2 k = Some t \<and>
         (\<exists>ls. out ?w2 = out ?w1 @ ls \<and> filter (\<lambda>m. messageKey m = k) (sent ls) = [])"
    using Cons.IH[OF s1(1) win1] Cons.prems(3,4) by (simp add: x)
  then obtain ls2 where s2: "lastAlertTime ?w2 k = Some t" "out ?w2 = out ?w1 @ ls2"
    "filter (\<lambda>m. messageKey m = k) (sent ls2) = []" by blast
  have "out ?w2 = out w @ (ls1 @ ls2)" using s1(2) s2(2) by simp
  moreover have "filter (\<lambda>m. messageKey m = k) (sent (ls1 @ ls2)) = []"
    using s1(3) s2(3) by (simp add: sent_append)
  ultimately show ?case using s2(1) unfolding x by simp
qed

section \<open>The price processor: threshold events and cooldown\<close>

lemma added_out: "out w' = out w @ ls \<Longrightarrow> added w w' = ls"
  by (simp add: added_def)



text \<open>
  C2. An evaluation prints the suppression line exactly when \<open>lastAlertTime\<close> has an entry
  for the key of the alert and the time since that entry is strictly below \<open>cooldown\<close>.
  A suppressed evaluation sends no message in either direction: it reads the clock once,
  prints the line and does nothing else, whatever the thresholds are.
\<close>

theorem cooldown_suppression:
  fixes e :: "'r env" and w :: "'r world" and priceUpdate :: PriceUpdate and alert :: Alert
  defines "w' \<equiv> processAlert e priceUpdate alert w"
  shows "(list_ex is_suppressed (added w w') \<longleftrightarrow>
            (\<exists>lastTime. lastAlertTime w (alertKey alert) = Some lastTime \<and>
                        now e (clock w) - lastTime < cooldown)) \<and>
         (list_ex is_suppressed (added w w') \<longrightarrow>
            sent (added w w') = [] \<and>
            w' = println (AlertSuppressed (alertKey alert)) (w\<lparr>clock := Suc (clock w)\<rparr>))"
proof (cases "cooldownActive e alert w")
  case True
  then have eq: "w' = println (AlertSuppressed (alertKey alert)) (w\<lparr>clock := Suc (clock w)\<rparr>)"
    by (simp add: w'_def processAlert_cases)
  have "added w w' = [AlertSuppressed (alertKey alert)]"
    unfolding eq by (simp add: added_def println_def)
  then show ?thesis using True eq
    by (auto simp: cooldownActive_def split: option.splits)
next
  case False
  let ?w1 = "case lastAlertTime w (alertKey alert) of None \<Rightarrow> w | Some lastTime \<Rightarrow> w\<lparr>clock := Suc (clock w)\<rparr>"
  have eq: "w' = checkThresholds e priceUpdate alert ?w1"
    using False by (simp add: w'_def processAlert_cases)
  obtain ls where ls: "out (checkThresholds e priceUpdate alert ?w1) = out ?w1 @ ls"
    "\<not> list_ex is_suppressed ls"
    using checkThresholds_effect[where e=e and pu=priceUpdate and a=alert and w="?w1"] by blast
  have "out ?w1 = out w" by (simp split: option.splits)
  then have "added w w' = ls" unfolding eq using ls(1) by (simp add: added_out)
  then show ?thesis using ls(2) False
    by (auto simp: cooldownActive_def split: option.splits)
qed

text \<open>
  The example alert ten seconds after its key fired: suppressed, although both thresholds
  are crossed.
\<close>

theorem cooldown_suppression_witness:
  "list_ex is_suppressed (added demoCooling (processAlert demoEnv (demoTick 85000) demoAlert demoCooling)) \<and>
   sent (added demoCooling (processAlert demoEnv (demoTick 85000) demoAlert demoCooling)) = [] \<and>
   processAlert demoEnv (demoTick 85000) demoAlert demoCooling =
     println (AlertSuppressed ''U1_BTC-USD'') (demoCooling\<lparr>clock := 2\<rparr>)"
proof -
  have h: "list_ex is_suppressed
     (added demoCooling (processAlert demoEnv (demoTick 85000) demoAlert demoCooling))"
    by (simp add: processAlert_def alertKey_def demoAlert_def demoCooling_def time_Now_def
        demoEnv_def cooldown_def println_def added_def)
  have k: "alertKey demoAlert = ''U1_BTC-USD''" by (simp add: alertKey_def demoAlert_def)
  have c: "Suc (clock demoCooling) = 2" by (simp add: demoCooling_def)
  show ?thesis
    using h cooldown_suppression[where e=demoEnv and w=demoCooling and alert=demoAlert
        and priceUpdate="demoTick 85000"]
    unfolding k c by blast
qed

lemma processAlert_fired:
  fixes e :: "'r env" and w :: "'r world" and priceUpdate :: PriceUpdate and alert :: Alert
  defines "w1 \<equiv> processAlert e priceUpdate alert w"
  assumes fired: "sent (added w w1) \<noteq> []"
  shows "lastAlertTime w1 = (lastAlertTime w)(alertKey alert \<mapsto> now e (clock w1 - 1)) \<and>
         notifications (added w w1) = 1 \<and>
         clock w1 = clock w + (case lastAlertTime w (alertKey alert) of None \<Rightarrow> 0 | Some lastTime \<Rightarrow> 1)
                      + length (sent (added w w1)) + 1"
proof -
  have nact: "\<not> cooldownActive e alert w"
  proof
    assume "cooldownActive e alert w"
    then have "w1 = println (AlertSuppressed (alertKey alert)) (w\<lparr>clock := Suc (clock w)\<rparr>)"
      by (simp add: w1_def processAlert_cases)
    then have "added w w1 = [AlertSuppressed (alertKey alert)]"
      by (simp add: added_def println_def)
    then show False using fired by simp
  qed
  let ?w0 = "case lastAlertTime w (alertKey alert) of None \<Rightarrow> w | Some lastTime \<Rightarrow> w\<lparr>clock := Suc (clock w)\<rparr>"
  let ?n = "length (belowAt e priceUpdate alert (clock ?w0))"
  let ?m = "length (aboveAt e priceUpdate alert (clock ?w0 + ?n))"
  have eq: "w1 = checkThresholds e priceUpdate alert ?w0"
    using nact by (simp add: w1_def processAlert_cases)
  have w0: "out ?w0 = out w" "lastAlertTime ?w0 = lastAlertTime w"
    "clock ?w0 = clock w + (case lastAlertTime w (alertKey alert) of None \<Rightarrow> 0 | Some lastTime \<Rightarrow> 1)"
    by (auto split: option.splits)
  obtain ls where ls: "out w1 = out ?w0 @ ls"
    "sent ls = belowAt e priceUpdate alert (clock ?w0) @ aboveAt e priceUpdate alert (clock ?w0 + ?n)"
    "(if lowerCrossed priceUpdate alert \<or> upperCrossed priceUpdate alert
      then lastAlertTime w1 = (lastAlertTime ?w0)(alertKey alert \<mapsto> now e (clock ?w0 + ?n + ?m)) \<and>
           clock w1 = clock ?w0 + ?n + ?m + 1 \<and> notifications ls = 1
      else lastAlertTime w1 = lastAlertTime ?w0 \<and> clock w1 = clock ?w0 + ?n + ?m \<and> notifications ls = 0)"
    unfolding eq
    using checkThresholds_effect[where e=e and pu=priceUpdate and a=alert and w="?w0"] by blast
  have add: "added w w1 = ls" using ls(1) w0(1) by (simp add: added_out)
  have crossed: "lowerCrossed priceUpdate alert \<or> upperCrossed priceUpdate alert"
  proof (rule ccontr)
    assume "\<not> ?thesis"
    then have "sent ls = []" unfolding ls(2)
      by (auto simp: belowAt_def aboveAt_def lowerCrossed_def upperCrossed_def split: option.splits)
    then show False using fired add by simp
  qed
  have len: "length (sent ls) = ?n + ?m" unfolding ls(2) by simp
  have r: "lastAlertTime w1 = (lastAlertTime w)(alertKey alert \<mapsto> now e (clock ?w0 + ?n + ?m))"
    "clock w1 = clock ?w0 + ?n + ?m + 1" "notifications ls = 1"
    using ls(3) crossed w0(2) by simp_all
  show ?thesis using r add len w0(3) by simp
qed

text \<open>
  C3. When an evaluation sends at least one message, \<open>lastAlertTime\<close> is written once, at the
  key of the alert, with a reading of the clock taken after the sends: one reading and one
  notification line, whether one or two messages were sent. From then on, as long as every
  reading of the clock stays within \<open>cooldown\<close> of the recorded time, no message with that
  key is sent, by any alert: \<open>ticks\<close> stands for the alerts left in the loop of the price
  update in hand (as its first element) and for the price updates that follow, each with
  the alerts fetched for its symbol.
\<close>

theorem cooldown_recorded_once:
  fixes e :: "'r env" and w :: "'r world" and priceUpdate :: PriceUpdate and alert :: Alert
    and ticks :: "((error + Alert list) \<times> PriceUpdate) list"
  defines "w1 \<equiv> processAlert e priceUpdate alert w"
  defines "w2 \<equiv> processPriceUpdates e ticks w1"
  assumes fired: "sent (added w w1) \<noteq> []"
    and fetched: "list_all fetchedFor ticks"
    and window: "\<forall>i. clock w1 \<le> i \<and> i < clock w2 \<longrightarrow> now e i - now e (clock w1 - 1) < cooldown"
  shows "lastAlertTime w1 = (lastAlertTime w)(alertKey alert \<mapsto> now e (clock w1 - 1)) \<and>
         notifications (added w w1) = 1 \<and>
         clock w1 = clock w + (case lastAlertTime w (alertKey alert) of None \<Rightarrow> 0 | Some lastTime \<Rightarrow> 1)
                      + length (sent (added w w1)) + 1 \<and>
         filter (\<lambda>m. messageKey m = alertKey alert) (sent (added w1 w2)) = []"
proof -
  have r: "lastAlertTime w1 = (lastAlertTime w)(alertKey alert \<mapsto> now e (clock w1 - 1)) \<and>
         notifications (added w w1) = 1 \<and>
         clock w1 = clock w + (case lastAlertTime w (alertKey alert) of None \<Rightarrow> 0 | Some lastTime \<Rightarrow> 1)
                      + length (sent (added w w1)) + 1"
    using processAlert_fired[where e=e and w=w and priceUpdate=priceUpdate and alert=alert] fired
    unfolding w1_def by blast
  then have t: "lastAlertTime w1 (alertKey alert) = Some (now e (clock w1 - 1))"
    by simp
  have "\<exists>ls2. out w2 = out w1 @ ls2 \<and> filter (\<lambda>m. messageKey m = alertKey alert) (sent ls2) = []"
    unfolding w2_def
    using processPriceUpdates_window[OF t, where e=e and N="clock w2" and ticks=ticks]
      window fetched by (simp add: w2_def)
  then have "filter (\<lambda>m. messageKey m = alertKey alert) (sent (added w1 w2)) = []"
    by (auto simp: added_out)
  then show ?thesis using r by blast
qed

lemmas demo_defs = demoEnv_def demoWorld_def demoAlert_def demoTick_def
lemmas eval_defs = processAlert_def checkThresholds_def sendSSEAlert_def BroadcastAlert_def
  Marshal_def time_Now_def println_def alertKey_def alertsChannel_def cooldown_def ge64_def
  processPriceUpdate_def added_def Let_def

text \<open>
  The example alert fires at price 89000 and is evaluated again ten seconds after the
  recorded time.
\<close>

theorem cooldown_recorded_once_witness:
  "sent (added demoWorld (processAlert demoEnv (demoTick 89000) demoAlert demoWorld)) \<noteq> [] \<and>
   list_all fetchedFor [(Inr [demoAlert], demoTick 88000)] \<and>
   lastAlertTime (processAlert demoEnv (demoTick 89000) demoAlert demoWorld) =
     [''U1_BTC-USD'' \<mapsto> 20000000000] \<and>
   filter (\<lambda>m. messageKey m = ''U1_BTC-USD'')
     (sent (added (processAlert demoEnv (demoTick 89000) demoAlert demoWorld)
        (processPriceUpdates demoEnv [(Inr [demoAlert], demoTick 88000)]
           (processAlert demoEnv (demoTick 89000) demoAlert demoWorld)))) = []"
proof -
  let ?w1 = "processAlert demoEnv (demoTick 89000) demoAlert demoWorld"
  let ?ticks = "[(Inr [demoAlert], demoTick 88000)]"
  have c1: "clock ?w1 = 3" by (simp add: demo_defs eval_defs)
  have c2: "clock (processPriceUpdates demoEnv ?ticks ?w1) = 4" by (simp add: demo_defs eval_defs)
  have fired: "sent (added demoWorld ?w1) \<noteq> []" by (simp add: demo_defs eval_defs)
  have fetched: "list_all fetchedFor ?ticks" by (simp add: demo_defs)
  have window: "\<forall>i. clock ?w1 \<le> i \<and> i < clock (processPriceUpdates demoEnv ?ticks ?w1) \<longrightarrow>
      now demoEnv i - now demoEnv (clock ?w1 - 1) < cooldown"
    unfolding c1 c2 by (auto simp: demoEnv_def cooldown_def)
  have k: "alertKey demoAlert = ''U1_BTC-USD''" by (simp add: alertKey_def demoAlert_def)
  have t: "now demoEnv (clock ?w1 - 1) = 20000000000" unfolding c1 by (simp add: demoEnv_def)
  have l: "lastAlertTime demoWorld = Map.empty" by (simp add: demoWorld_def)
  show ?thesis
    using fired fetched cooldown_recorded_once[OF fired fetched window]
    unfolding k t l by simp
qed

text \<open>
  C10. The key of an alert is its user, an underscore and its symbol. Distinct pairs of
  user and symbol can have the same key, and when they do, a fire of one alert suppresses
  the other: in any later state that still holds the recorded time for the key and reads
  the clock within \<open>cooldown\<close> of it, the other alert is skipped.
\<close>

theorem key_collision:
  fixes e :: "'r env" and w :: "'r world" and w2 :: "'r world" and priceUpdate :: PriceUpdate
    and a :: Alert
  defines "w1 \<equiv> processAlert e priceUpdate a w"
  assumes same: "alertKey a = alertKey b"
    and fired: "sent (added w w1) \<noteq> []"
    and kept: "lastAlertTime w2 (alertKey a) = lastAlertTime w1 (alertKey a)"
    and window: "now e (clock w2) - now e (clock w1 - 1) < cooldown"
  shows "alertKey a = Alert.UserID a @ ''_'' @ Alert.Symbol a \<and>
         (\<exists>x y. (Alert.UserID x, Alert.Symbol x) \<noteq> (Alert.UserID y, Alert.Symbol y) \<and>
                alertKey x = alertKey y) \<and>
         sent (added w2 (processAlert e priceUpdate' b w2)) = [] \<and>
         processAlert e priceUpdate' b w2 =
           println (AlertSuppressed (alertKey b)) (w2\<lparr>clock := Suc (clock w2)\<rparr>)"
proof -
  have "lastAlertTime w1 = (lastAlertTime w)(alertKey a \<mapsto> now e (clock w1 - 1))"
    using processAlert_fired[where e=e and w=w and priceUpdate=priceUpdate and alert=a]
      fired by (simp add: w1_def)
  then have "lastAlertTime w2 (alertKey b) = Some (now e (clock w1 - 1))"
    using kept same by simp
  then have act: "cooldownActive e b w2" using window by (simp add: cooldownActive_def)
  then have eq: "processAlert e priceUpdate' b w2 =
           println (AlertSuppressed (alertKey b)) (w2\<lparr>clock := Suc (clock w2)\<rparr>)"
    by (simp add: processAlert_cases)
  have "sent (added w2 (processAlert e priceUpdate' b w2)) = []"
    unfolding eq by (simp add: added_def println_def)
  moreover have "(Alert.UserID alertAB, Alert.Symbol alertAB) \<noteq> (Alert.UserID alertA, Alert.Symbol alertA) \<and>
                alertKey alertAB = alertKey alertA"
    by (simp add: alertAB_def alertA_def alertKey_def)
  ultimately show ?thesis using eq by (auto simp: alertKey_def)
qed

text \<open>
  User \<open>a_b\<close> with symbol \<open>c\<close> fires; user \<open>a\<close> with symbol \<open>b_c\<close> is then suppressed although
  its threshold is crossed.
\<close>

theorem key_collision_witness:
  "alertKey alertAB = alertKey alertA \<and>
   (Alert.UserID alertAB, Alert.Symbol alertAB) \<noteq> (Alert.UserID alertA, Alert.Symbol alertA) \<and>
   sent (added demoWorld (processAlert demoEnv tickC alertAB demoWorld)) \<noteq> [] \<and>
   now demoEnv (clock (processAlert demoEnv tickC alertAB demoWorld)) -
     now demoEnv (clock (processAlert demoEnv tickC alertAB demoWorld) - 1) < cooldown \<and>
   sent (added (processAlert demoEnv tickC alertAB demoWorld)
     (processAlert demoEnv tickBC alertA (processAlert demoEnv tickC alertAB demoWorld))) = [] \<and>
   upperCrossed tickBC alertA"
proof -
  let ?w1 = "processAlert demoEnv tickC alertAB demoWorld"
  have same: "alertKey alertAB = alertKey alertA"
    by (simp add: alertKey_def alertAB_def alertA_def)
  have fired: "sent (added demoWorld ?w1) \<noteq> []"
    by (simp add: demo_defs eval_defs alertAB_def tickC_def)
  have kept: "lastAlertTime ?w1 (alertKey alertAB) = lastAlertTime ?w1 (alertKey alertAB)" ..
  have c1: "clock ?w1 = 2" by (simp add: demo_defs eval_defs alertAB_def tickC_def)
  have window: "now demoEnv (clock ?w1) - now demoEnv (clock ?w1 - 1) < cooldown"
    unfolding c1 by (simp add: demoEnv_def cooldown_def)
  have distinct: "(Alert.UserID alertAB, Alert.Symbol alertAB) \<noteq> (Alert.UserID alertA, Alert.Symbol alertA)"
    by (simp add: alertAB_def alertA_def)
  have crossed: "upperCrossed tickBC alertA"
    by (simp add: upperCrossed_def alertA_def tickBC_def ge64_def)
  show ?thesis
    using same fired window distinct crossed
      key_collision[OF same fired kept window, of tickBC]
    by blast
qed

section \<open>Publishing to the relay\<close>











section \<open>The streaming server: broadcast\<close>

lemma try_send_open:
  assumes "heap st c = Some ch" "\<not> closed ch"
  shows "try_send c m st =
           Inr (length (buf ch) < cap ch, st\<lparr>heap := (heap st)(c \<mapsto> deliver m ch)\<rparr>)"
proof -
  have "st\<lparr>heap := (heap st)(c \<mapsto> ch)\<rparr> = st" using assms(1) by (simp add: fun_upd_idem)
  then show ?thesis using assms by (simp add: try_send_def deliver_def)
qed

lemma broadcastLoop_effect:
  assumes "distinct cs" "allOpen st cs"
  shows "\<exists>st' ls. broadcastLoop alert cs st = Inr st' \<and>
     clients st' = clients st \<and> next_chan st' = next_chan st \<and> written st' = written st \<and>
     heap st' = (\<lambda>c. if c \<in> set cs then map_option (deliver alert) (heap st c) else heap st c) \<and>
     logs st' = logs st @ ls \<and> drops ls = length (filter (isFull st) cs)"
  using assms
proof (induction cs arbitrary: st)
  case Nil
  then show ?case by (simp add: drops_def)
next
  case (Cons c cs)
  from Cons.prems(2) obtain ch where ch: "heap st c = Some ch" "\<not> closed ch"
    by (auto simp: allOpen_def split: option.splits)
  let ?st1 = "st\<lparr>heap := (heap st)(c \<mapsto> deliver alert ch)\<rparr>"
  let ?st2 = "if length (buf ch) < cap ch then ?st1
              else logLine (Log Warn ''Alert dropped due to slow client'' []) ?st1"
  have step: "broadcastLoop alert (c # cs) st = broadcastLoop alert cs ?st2"
    using try_send_open[OF ch, of alert] by simp
  have notin: "c \<notin> set cs" and dist: "distinct cs" using Cons.prems(1) by simp_all
  have heap2: "heap ?st2 = (heap st)(c \<mapsto> deliver alert ch)" by (simp add: logLine_def)
  have open2: "allOpen ?st2 cs"
    using Cons.prems(2) notin unfolding allOpen_def heap2
    by (auto simp: list_all_iff)
  from Cons.IH[OF dist open2]
  obtain st' ls where r: "broadcastLoop alert cs ?st2 = Inr st'"
    "clients st' = clients ?st2" "next_chan st' = next_chan ?st2" "written st' = written ?st2"
    "heap st' = (\<lambda>x. if x \<in> set cs then map_option (deliver alert) (heap ?st2 x) else heap ?st2 x)"
    "logs st' = logs ?st2 @ ls" "drops ls = length (filter (isFull ?st2) cs)"
    by blast
  have full_eq: "filter (isFull ?st2) cs = filter (isFull st) cs"
    using notin unfolding isFull_def heap2 by (intro filter_cong) auto
  have heap': "heap st' = (\<lambda>x. if x \<in> set (c # cs) then map_option (deliver alert) (heap st x) else heap st x)"
    unfolding r(5) heap2 using notin ch by (auto simp: fun_eq_iff)
  let ?l0 = "if length (buf ch) < cap ch then [] else [Log Warn ''Alert dropped due to slow client'' []]"
  have logs': "logs st' = logs st @ (?l0 @ ls)"
    unfolding r(6) by (simp add: logLine_def)
  have drops': "drops (?l0 @ ls) = length (filter (isFull st) (c # cs))"
    using r(7) full_eq ch by (simp add: drops_def isFull_def)
  have same: "clients st' = clients st" "next_chan st' = next_chan st" "written st' = written st"
    using r(2,3,4) by (simp_all add: logLine_def)
  have res: "broadcastLoop alert (c # cs) st = Inr st'" using step r(1) by simp
  show ?case
    by (rule exI[of _ st'], rule exI[of _ "?l0 @ ls"]) (simp only: res same heap' logs' drops' simp_thms)
qed

lemma registryOk_allOpen: "registryOk st \<Longrightarrow> allOpen st (map fst (clients st))"
  by (auto simp: registryOk_def allOpen_def list_all_iff)

text \<open>
  C4. A broadcast to a registry of any size returns, and it does to every registered
  channel what \<open>deliver\<close> says: the message is appended to a buffer that has room, a full
  buffer is left as it is, and channels outside the registry are untouched. The number of
  drop warnings it logs is the number of registered channels whose buffer was full. The
  send never blocks: a full buffer takes the default branch and the loop goes on to the
  next channel.
\<close>

theorem broadcast_delivery:
  assumes "registryOk st"
  shows "\<exists>st'. broadcastToClients alert st = Inr st' \<and>
     clients st' = clients st \<and>
     heap st' = (\<lambda>c. if c \<in> fst ` set (clients st)
                     then map_option (deliver alert) (heap st c) else heap st c) \<and>
     drops (drop (length (logs st)) (logs st')) =
       length (filter (isFull st) (map fst (clients st)))"
proof (cases "clients st = []")
  case True
  then show ?thesis by (simp add: broadcastToClients_def logLine_def drops_def)
next
  case False
  let ?l = "Log Info ''Broadcasting alert to clients''
                  [ZInt ''client_count'' (length (clients st)),
                   ZString ''symbol'' (AlertMessage.Symbol alert)]"
  let ?st1 = "logLine ?l st"
  have eq: "broadcastToClients alert st = broadcastLoop alert (map fst (clients st)) ?st1"
    using False by (simp add: broadcastToClients_def logLine_def)
  have d: "distinct (map fst (clients st))" using assms by (simp add: registryOk_def)
  have o: "allOpen ?st1 (map fst (clients st))"
    using registryOk_allOpen[OF assms] by (simp add: allOpen_def logLine_def)
  have st1: "heap ?st1 = heap st" "clients ?st1 = clients st" "logs ?st1 = logs st @ [?l]"
    "isFull ?st1 = isFull st"
    by (simp_all add: isFull_def logLine_def fun_eq_iff)
  from broadcastLoop_effect[OF d o, of alert]
  obtain st' ls where r: "broadcastLoop alert (map fst (clients st)) ?st1 = Inr st'"
    "clients st' = clients st"
    "heap st' = (\<lambda>c. if c \<in> set (map fst (clients st))
                     then map_option (deliver alert) (heap st c) else heap st c)"
    "logs st' = (logs st @ [?l]) @ ls" "drops ls = length (filter (isFull st) (map fst (clients st)))"
    unfolding st1 by blast
  have "drop (length (logs st)) (logs st') = ?l # ls" using r(4) by simp
  then have dr: "drops (drop (length (logs st)) (logs st')) =
      length (filter (isFull st) (map fst (clients st)))"
    using r(5) by (simp add: drops_def)
  have hp: "heap st' = (\<lambda>c. if c \<in> fst ` set (clients st)
                     then map_option (deliver alert) (heap st c) else heap st c)"
    using r(3) by simp
  show ?thesis unfolding eq
    by (rule exI[of _ st']) (simp only: r(1,2) hp dr simp_thms)
qed

text \<open>
  Three connected clients, one with a full buffer: the message reaches the other two and
  exactly one drop is logged.
\<close>

theorem broadcast_delivery_witness:
  "registryOk threeSinks \<and>
   (\<exists>st'. broadcastToClients demoMessage threeSinks = Inr st' \<and>
      map_option buf (heap st' 0) = Some [demoMessage] \<and>
      map_option buf (heap st' 1) = Some (replicate 10 (heartbeatMessage ''T'')) \<and>
      map_option buf (heap st' 2) = Some [heartbeatMessage ''T'', demoMessage] \<and>
      drops (logs st') = 1)"
proof -
  have h: "registryOk threeSinks" by (simp add: registryOk_def threeSinks_def)
  have c: "fst ` set (clients threeSinks) = {0, 1, 2}" by (simp add: threeSinks_def)
  have f: "filter (isFull threeSinks) (map fst (clients threeSinks)) = [1]"
    by (simp add: threeSinks_def isFull_def)
  have l: "logs threeSinks = []" by (simp add: threeSinks_def)
  from broadcast_delivery[OF h, of demoMessage]
  obtain st' where r: "broadcastToClients demoMessage threeSinks = Inr st'"
    "heap st' = (\<lambda>c. if c \<in> {0, 1, 2}
                     then map_option (deliver demoMessage) (heap threeSinks c) else heap threeSinks c)"
    "drops (logs st') = 1"
    unfolding c f l by auto
  have "map_option buf (heap st' 0) = Some [demoMessage]"
    "map_option buf (heap st' 1) = Some (replicate 10 (heartbeatMessage ''T''))"
    "map_option buf (heap st' 2) = Some [heartbeatMessage ''T'', demoMessage]"
    unfolding r(2) by (simp_all add: threeSinks_def deliver_def)
  then show ?thesis using h r(1,3) by blast
qed

section \<open>The streaming server: connections\<close>

lemma connect_effect:
  assumes "registryOk st"
  shows "registryOk (snd (connect st)) \<and>
     fst (connect st) = next_chan st \<and>
     next_chan (snd (connect st)) = Suc (next_chan st) \<and>
     map fst (clients (snd (connect st))) = map fst (clients st) @ [next_chan st] \<and>
     logs (snd (connect st)) = logs st @
       [Log Info ''New SSE client connected'' [ZInt ''total_clients'' (Suc (length (clients st)))]]"
proof -
  let ?n = "next_chan st"
  have fresh: "?n \<notin> set (map fst (clients st))"
    using assms by (auto simp: registryOk_def list_all_iff)
  have keys: "map fst (AList.update ?n True (clients st)) = map fst (clients st) @ [?n]"
    using fresh by (simp add: update_keys)
  have len: "length (AList.update ?n True (clients st)) = Suc (length (clients st))"
    using arg_cong[OF keys, of length] by simp
  have ok: "registryOk (snd (connect st))"
    using assms fresh
    by (auto simp: connect_def make_chan_def logLine_def registryOk_def keys list_all_iff Let_def)
  show ?thesis using ok keys len
    by (simp add: connect_def make_chan_def logLine_def Let_def)
qed

lemma length_delete_mem:
  "distinct (map fst al) \<Longrightarrow> k \<in> fst ` set al \<Longrightarrow> Suc (length (AList.delete k al)) = length al"
proof (induction al)
  case Nil
  then show ?case by simp
next
  case (Cons p al)
  show ?case
  proof (cases "fst p = k")
    case True
    then have "k \<notin> fst ` set al" using Cons.prems(1) by auto
    then show ?thesis using True by (simp add: delete_id)
  next
    case False
    then show ?thesis using Cons by auto
  qed
qed

lemma disconnect_effect:
  assumes "registryOk st" "c \<in> fst ` set (clients st)"
  shows "\<exists>st'. disconnect c st = Inr st' \<and> registryOk st' \<and>
     next_chan st' = next_chan st \<and>
     map fst (clients st') = removeAll c (map fst (clients st)) \<and>
     Suc (length (clients st')) = length (clients st) \<and>
     logs st' = logs st @
       [Log Info ''SSE client disconnected'' [ZInt ''total_clients'' (length (clients st'))]]"
proof -
  have d: "distinct (map fst (clients st))" using assms(1) by (simp add: registryOk_def)
  obtain ch where ch: "heap st c = Some ch" "\<not> closed ch"
    using assms by (auto simp: registryOk_def list_all_iff split: option.splits)
  let ?st' = "st\<lparr>clients := AList.delete c (clients st),
               heap := (heap st)(c \<mapsto> ch\<lparr>closed := True\<rparr>),
               logs := logs st @ [Log Info ''SSE client disconnected''
                    [ZInt ''total_clients'' (length (AList.delete c (clients st)))]]\<rparr>"
  have eq: "disconnect c st = Inr ?st'"
    using ch by (simp add: disconnect_def close_chan_def logLine_def Let_def)
  have keys: "map fst (clients ?st') = removeAll c (map fst (clients st))"
    by (simp add: delete_keys)
  have ok: "registryOk ?st'"
    using assms(1) d unfolding registryOk_def keys
    by (auto simp: list_all_iff distinct_removeAll)
  have len: "Suc (length (clients ?st')) = length (clients st)"
    using length_delete_mem[OF d assms(2)] by simp
  have keys': "map fst (AList.delete c (clients st)) = removeAll c (map fst (clients st))"
    by (rule delete_keys)
  have len': "Suc (length (AList.delete c (clients st))) = length (clients st)"
    by (rule length_delete_mem[OF d assms(2)])
  show ?thesis unfolding eq
    by (rule exI[of _ ?st']) (simp add: ok keys' len')
qed

lemma run_count:
  assumes "registryOk st" "set live = fst ` set (clients st)" "handlerOps (next_chan st) live ops"
  shows "\<exists>st'. run ops st = Inr st' \<and> registryOk st' \<and>
     length (clients st') + length (filter (\<lambda>x. \<not> isConnect x) ops) =
       length (clients st) + length (filter isConnect ops) \<and>
     (ops \<noteq> [] \<longrightarrow> (\<exists>msg. last (logs st') =
        Log Info msg [ZInt ''total_clients'' (length (clients st'))]))"
  using assms
proof (induction ops arbitrary: st live)
  case Nil
  then show ?case by simp
next
  case (Cons x ops)
  show ?case
  proof (cases x)
    case Connect
    let ?st1 = "snd (connect st)"
    have c: "registryOk ?st1" "next_chan ?st1 = Suc (next_chan st)"
      "map fst (clients ?st1) = map fst (clients st) @ [next_chan st]"
      "logs ?st1 = logs st @
       [Log Info ''New SSE client connected'' [ZInt ''total_clients'' (Suc (length (clients st)))]]"
      using connect_effect[OF Cons.prems(1)] by simp_all
    have len: "length (clients ?st1) = Suc (length (clients st))"
      using arg_cong[OF c(3), of length] by simp
    have live: "set (next_chan st # live) = fst ` set (clients ?st1)"
      using Cons.prems(2) arg_cong[OF c(3), of set] by auto
    have h: "handlerOps (next_chan ?st1) (next_chan st # live) ops"
      using Cons.prems(3) Connect c(2) by simp
    from Cons.IH[OF c(1) live h]
    obtain st' where r: "run ops ?st1 = Inr st'" "registryOk st'"
      "length (clients st') + length (filter (\<lambda>x. \<not> isConnect x) ops) =
         length (clients ?st1) + length (filter isConnect ops)"
      "ops \<noteq> [] \<longrightarrow> (\<exists>msg. last (logs st') =
        Log Info msg [ZInt ''total_clients'' (length (clients st'))])"
      by blast
    have lastlog: "\<exists>msg. last (logs st') = Log Info msg [ZInt ''total_clients'' (length (clients st'))]"
    proof (cases "ops = []")
      case True
      then have "st' = ?st1" using r(1) by simp
      then show ?thesis using c(4) len by simp
    next
      case False
      then show ?thesis using r(4) by simp
    qed
    show ?thesis
      by (rule exI[of _ st']) (use r len lastlog Connect in simp)
  next
    case (Disconnect c)
    have mem: "c \<in> fst ` set (clients st)" using Cons.prems(2,3) Disconnect by auto
    from disconnect_effect[OF Cons.prems(1) mem]
    obtain st1 where d: "disconnect c st = Inr st1" "registryOk st1"
      "next_chan st1 = next_chan st"
      "map fst (clients st1) = removeAll c (map fst (clients st))"
      "Suc (length (clients st1)) = length (clients st)"
      "logs st1 = logs st @
       [Log Info ''SSE client disconnected'' [ZInt ''total_clients'' (length (clients st1))]]"
      by blast
    have live: "set (removeAll c live) = fst ` set (clients st1)"
      using Cons.prems(2) arg_cong[OF d(4), of set] by auto
    have h: "handlerOps (next_chan st1) (removeAll c live) ops"
      using Cons.prems(3) Disconnect d(3) by simp
    from Cons.IH[OF d(2) live h]
    obtain st' where r: "run ops st1 = Inr st'" "registryOk st'"
      "length (clients st') + length (filter (\<lambda>x. \<not> isConnect x) ops) =
         length (clients st1) + length (filter isConnect ops)"
      "ops \<noteq> [] \<longrightarrow> (\<exists>msg. last (logs st') =
        Log Info msg [ZInt ''total_clients'' (length (clients st'))])"
      by blast
    have lastlog: "\<exists>msg. last (logs st') = Log Info msg [ZInt ''total_clients'' (length (clients st'))]"
    proof (cases "ops = []")
      case True
      then have "st' = st1" using r(1) by simp
      then show ?thesis using d(6) by simp
    next
      case False
      then show ?thesis using r(4) by simp
    qed
    show ?thesis
      by (rule exI[of _ st']) (use r d(1,5) lastlog Disconnect in simp)
  qed
qed

text \<open>
  C9. From a state of the registry, after any sequence of connections and disconnections
  in which every disconnection names a channel that is connected at that point (a handler
  disconnects the channel it connected, once), the number of entries of \<open>clients\<close> is the
  number before plus the connections minus the disconnections, and the last log line
  reports that number as \<open>total_clients\<close>.
\<close>

theorem connected_count:
  assumes "registryOk st" "handlerOps (next_chan st) (map fst (clients st)) ops"
  shows "\<exists>st'. run ops st = Inr st' \<and>
     length (clients st') + length (filter (\<lambda>x. \<not> isConnect x) ops) =
       length (clients st) + length (filter isConnect ops) \<and>
     (ops \<noteq> [] \<longrightarrow> (\<exists>msg. last (logs st') =
        Log Info msg [ZInt ''total_clients'' (length (clients st'))]))"
proof -
  have "set (map fst (clients st)) = fst ` set (clients st)" by simp
  from run_count[OF assms(1) this assms(2)] show ?thesis by blast
qed

text \<open>
  From the empty registry: three connections and two disconnections leave one client.
\<close>

theorem connected_count_witness:
  "registryOk initial \<and> handlerOps (next_chan initial) (map fst (clients initial)) demoOps \<and>
   (\<exists>st'. run demoOps initial = Inr st' \<and> length (clients st') = 1 \<and>
      last (logs st') = Log Info ''SSE client disconnected'' [ZInt ''total_clients'' 1])"
proof -
  have h1: "registryOk initial" by (simp add: registryOk_def initial_def)
  have h2: "handlerOps (next_chan initial) (map fst (clients initial)) demoOps"
    by (simp add: initial_def demoOps_def)
  have ne: "demoOps \<noteq> []" by (simp add: demoOps_def)
  have l: "last (logs st') = Log Info ''SSE client disconnected'' [ZInt ''total_clients'' 1]"
    if "run demoOps initial = Inr st'" for st'
    using that
    by (auto simp: demoOps_def initial_def connect_def disconnect_def make_chan_def close_chan_def
        logLine_def Let_def)
  from connected_count[OF h1 h2]
  obtain st' where r: "run demoOps initial = Inr st'"
    "length (clients st') + length (filter (\<lambda>x. \<not> isConnect x) demoOps) =
       length (clients initial) + length (filter isConnect demoOps)"
    by blast
  have "length (clients st') = 1" using r(2) by (simp add: demoOps_def initial_def)
  then show ?thesis using h1 h2 r(1) l[OF r(1)] by blast
qed

section \<open>The streaming server: heartbeats\<close>

text \<open>
  C5, as stated, fails: on a full buffer the heartbeat goroutine returns, and at the next
  firing of the ticker no heartbeat is attempted although the buffer has room again.
\<close>

theorem heartbeat_continues_counterexample:
  "heartbeat 0 (TickerFired ''T1'') (Running, fullSink) = Inr (Returned, fullSink) \<and>
   (\<exists>st. streamStep 0 fullSink = Some st \<and> \<not> isFull st 0 \<and>
         heartbeat 0 (TickerFired ''T2'') (Returned, st) = Inr (Returned, st))"
  by (simp add: fullSink_def try_send_def streamStep_def Marshal_def heartbeatMessage_def
      isFull_def numeral_nat)

text \<open>
  C5, amended. When the ticker fires and the buffer of the connection is full, the state
  of the server is unchanged: the client stays registered, its channel stays open and
  nothing is logged. The heartbeat goroutine returns, and from then on no signal makes it
  send a heartbeat, whatever the state of the server.
\<close>

theorem heartbeat_full_buffer:
  assumes "heap st c = Some ch" "\<not> closed ch" "\<not> length (buf ch) < cap ch"
  shows "heartbeat c (TickerFired ts) (Running, st) = Inr (Returned, st) \<and>
         heartbeat c sig (Returned, st') = Inr (Returned, st')"
  using assms by (simp add: try_send_def)

text \<open>
  The client with the full buffer of ten messages.
\<close>

theorem heartbeat_full_buffer_witness:
  "heap fullSink 0 = Some \<lparr>buf = replicate 10 (heartbeatMessage ''T''), cap = 10, closed = False\<rparr> \<and>
   heartbeat 0 (TickerFired ''T1'') (Running, fullSink) = Inr (Returned, fullSink) \<and>
   heartbeat 0 (TickerFired ''T2'') (Returned, fullSink) = Inr (Returned, fullSink)"
proof -
  have h: "heap fullSink 0 = Some \<lparr>buf = replicate 10 (heartbeatMessage ''T''), cap = 10, closed = False\<rparr>"
    by (simp add: fullSink_def)
  show ?thesis
    using h heartbeat_full_buffer[OF h, of "''T1''" "TickerFired ''T2''" fullSink] by simp
qed

text \<open>
  C7. A heartbeat sent to a freshly connected client and written to the response: the
  event written has all five keys, the four alert fields with their zero values beside the
  timestamp, not the timestamp alone.
\<close>

theorem heartbeat_event_fields:
  "\<exists>st1 st2. heartbeat 0 (TickerFired ts) (Running, snd (connect initial)) = Inr (Running, st1) \<and>
     streamStep 0 st1 = Some st2 \<and>
     written st2 0 =
       [JObject [(''user_id'', JString []), (''symbol'', JString []), (''threshold'', JNumber 0),
                 (''triggered'', JString []), (''timestamp'', JString (coerceUTF8 ts))]] \<and>
     map keys (written st2 0) =
       [[''user_id'', ''symbol'', ''threshold'', ''triggered'', ''timestamp'']]"
  by (simp add: initial_def connect_def make_chan_def logLine_def try_send_def streamStep_def
      Marshal_def heartbeatMessage_def coerceUTF8_def Let_def)

section \<open>The relay: serialization round trip\<close>







end
